theory Spec2Isabelle
  imports Complex_Main
begin

section \<open>Numeric model\<close>

text \<open>
  The program \<^verbatim>\<open>MHK.py\<close> computes with Python floats and numpy's elementary
  functions. Two models of its arithmetic are used here.

  In the first a float is a real number and every operation is exact. It describes the
  solver's formulas: the geometry behind the guard, the round trip through the forward
  kinematics, the worked example and the path from the sliders to the solver.

  The second, defined after it, is IEEE 754 double precision: rounding to nearest,
  overflow, the infinities and NaN, and the two exceptions that the solver's arithmetic
  can raise. What rounding or overflow decides is settled in that model.

  Python's \<^verbatim>\<open>/\<close> on floats raises \<^verbatim>\<open>ZeroDivisionError\<close> for a zero
  divisor, so division returns a sum type with the error on the left.
\<close>

datatype py_error = ZeroDivisionError

definition py_truediv :: "real \<Rightarrow> real \<Rightarrow> py_error + real" where
  "py_truediv a b = (if b = 0 then Inl ZeroDivisionError else Inr (a / b))"

text \<open>
  \<^verbatim>\<open>np.arctan2(y, x)\<close>: the angle of the point \<open>(x, y)\<close> in \<open>(-\<pi>, \<pi>]\<close>, with
  \<^verbatim>\<open>arctan2(0, 0) = 0\<close> as numpy (and C99) define it.
\<close>

definition np_arctan2 :: "real \<Rightarrow> real \<Rightarrow> real" where
  "np_arctan2 y x =
     (if 0 < x then arctan (y / x)
      else if x < 0 then (if 0 \<le> y then arctan (y / x) + pi else arctan (y / x) - pi)
      else if 0 < y then pi / 2
      else if y < 0 then - (pi / 2)
      else 0)"

definition np_degrees :: "real \<Rightarrow> real" where
  "np_degrees t = t * (180 / pi)"

definition np_radians :: "real \<Rightarrow> real" where
  "np_radians d = d * (pi / 180)"

section \<open>The kinematics solver\<close>

text \<open>
  \<^verbatim>\<open>Window.inverse_kinematics(x, y, L1, L2)\<close>. The result is the pair
  \<^verbatim>\<open>(None, None)\<close> when the guard \<^verbatim>\<open>abs(D) > 1\<close> fires, and a pair of angles in
  degrees otherwise. The division that computes \<open>D\<close> is the first statement of the
  body, and nothing checks the link lengths before it.
\<close>

definition inverse_kinematics ::
  "real \<Rightarrow> real \<Rightarrow> real \<Rightarrow> real \<Rightarrow> py_error + (real option \<times> real option)" where
  "inverse_kinematics x y L1 L2 =
     (case py_truediv (x\<^sup>2 + y\<^sup>2 - L1\<^sup>2 - L2\<^sup>2) (2 * L1 * L2) of
        Inl e \<Rightarrow> Inl e
      | Inr D \<Rightarrow>
          if \<bar>D\<bar> > 1 then Inr (None, None)
          else
            let theta2 = np_arctan2 (sqrt (1 - D\<^sup>2)) D;
                theta1 = np_arctan2 y x
                         - np_arctan2 (L2 * sin theta2) (L1 + L2 * cos theta2)
            in Inr (Some (np_degrees theta1), Some (np_degrees theta2)))"

text \<open>The value the solver binds to \<open>D\<close> when the division succeeds.\<close>

definition elbow_cosine :: "real \<Rightarrow> real \<Rightarrow> real \<Rightarrow> real \<Rightarrow> real" where
  "elbow_cosine x y L1 L2 = (x\<^sup>2 + y\<^sup>2 - L1\<^sup>2 - L2\<^sup>2) / (2 * L1 * L2)"

section \<open>Drawing the arm\<close>

text \<open>
  \<^verbatim>\<open>Window.plot_robot_arm(theta1, theta2, L1, L2)\<close> takes the angles in degrees,
  converts them to radians and computes the elbow joint and the end effector. The record
  holds what is handed to the canvas: the two points, the angles of the label and the
  axis limit \<open>L1 + L2 + 1\<close>.
\<close>

record arm_plot =
  joint1_x :: real
  joint1_y :: real
  end_effector_x :: real
  end_effector_y :: real
  label_theta1 :: real
  label_theta2 :: real
  axis_limit :: real

definition plot_robot_arm :: "real \<Rightarrow> real \<Rightarrow> real \<Rightarrow> real \<Rightarrow> arm_plot" where
  "plot_robot_arm theta1 theta2 L1 L2 =
     (let theta1_rad = np_radians theta1;
          theta2_rad = np_radians theta2;
          j1x = L1 * cos theta1_rad;
          j1y = L1 * sin theta1_rad
      in \<lparr> joint1_x = j1x,
           joint1_y = j1y,
           end_effector_x = j1x + L2 * cos (theta1_rad + theta2_rad),
           end_effector_y = j1y + L2 * sin (theta1_rad + theta2_rad),
           label_theta1 = theta1,
           label_theta2 = theta2,
           axis_limit = L1 + L2 + 1 \<rparr>)"

section \<open>Sliders and the redraw\<close>

text \<open>
  A \<^verbatim>\<open>QSlider\<close> holds an integer value inside an integer range. Qt's documented
  behaviour, which the program relies on: a new slider has the range \<open>0..99\<close> and the
  value \<open>0\<close>; \<^verbatim>\<open>setValue\<close> forces the value into the range; \<^verbatim>\<open>setRange\<close>
  sets the range (the maximum never below the minimum) and forces the current value into
  it. Labels and tick marks carry no value and are left out.
\<close>

record slider =
  minimum :: int
  maximum :: int
  val :: int

definition QSlider :: slider where
  "QSlider = \<lparr> minimum = 0, maximum = 99, val = 0 \<rparr>"

definition setValue :: "int \<Rightarrow> slider \<Rightarrow> slider" where
  "setValue v s = s\<lparr> val := max (minimum s) (min v (maximum s)) \<rparr>"

definition setRange :: "int \<Rightarrow> int \<Rightarrow> slider \<Rightarrow> slider" where
  "setRange lo hi s = setValue (val s) (s\<lparr> minimum := lo, maximum := max lo hi \<rparr>)"

definition create_slider_with_label :: "int \<Rightarrow> int \<Rightarrow> int \<Rightarrow> slider" where
  "create_slider_with_label min_val max_val init_val =
     setValue init_val (setRange min_val max_val QSlider)"

record window =
  slider_x :: slider
  slider_y :: slider
  slider_L1 :: slider
  slider_L2 :: slider

definition init_ui :: window where
  "init_ui =
     \<lparr> slider_x = create_slider_with_label (- 600) 600 200,
       slider_y = create_slider_with_label (- 600) 600 200,
       slider_L1 = create_slider_with_label 1 600 200,
       slider_L2 = create_slider_with_label 1 600 200 \<rparr>"

text \<open>
  The only way the state changes after \<^verbatim>\<open>init_ui\<close>: one of the four sliders is
  asked to take a new value (by the mouse, the keyboard or a call), and the widget
  clamps it.
\<close>

datatype control = End_Effector_X | End_Effector_Y | Link_L1 | Link_L2

fun slider_moved :: "window \<Rightarrow> control \<times> int \<Rightarrow> window" where
  "slider_moved w (End_Effector_X, v) = w\<lparr> slider_x := setValue v (slider_x w) \<rparr>"
| "slider_moved w (End_Effector_Y, v) = w\<lparr> slider_y := setValue v (slider_y w) \<rparr>"
| "slider_moved w (Link_L1, v) = w\<lparr> slider_L1 := setValue v (slider_L1 w) \<rparr>"
| "slider_moved w (Link_L2, v) = w\<lparr> slider_L2 := setValue v (slider_L2 w) \<rparr>"

definition after_events :: "(control \<times> int) list \<Rightarrow> window" where
  "after_events evs = foldl slider_moved init_ui evs"

text \<open>
  \<^verbatim>\<open>Window.update_plot\<close>: the four arguments it reads off the sliders, and what it
  puts on the canvas: the arm when both angles are present, the message
  \<^verbatim>\<open>Solution not possible\<close> otherwise.
\<close>

definition update_plot_args :: "window \<Rightarrow> real \<times> real \<times> real \<times> real" where
  "update_plot_args w =
     (real_of_int (val (slider_x w)) / 100,
      real_of_int (val (slider_y w)) / 100,
      real_of_int (val (slider_L1 w)) / 100,
      real_of_int (val (slider_L2 w)) / 100)"

datatype canvas = Arm_Drawn arm_plot | Solution_Not_Possible

definition update_plot :: "window \<Rightarrow> py_error + canvas" where
  "update_plot w =
     (case update_plot_args w of (x, y, L1, L2) \<Rightarrow>
        (case inverse_kinematics x y L1 L2 of
           Inl e \<Rightarrow> Inl e
         | Inr (theta1, theta2) \<Rightarrow>
             if theta1 \<noteq> None \<and> theta2 \<noteq> None
             then Inr (Arm_Drawn (plot_robot_arm (the theta1) (the theta2) L1 L2))
             else Inr Solution_Not_Possible))"

text \<open>
  What \<^verbatim>\<open>init_ui\<close> establishes and no later event undoes: the four ranges, and each
  slider's value inside its range.
\<close>

definition ranges_set :: "window \<Rightarrow> bool" where
  "ranges_set w \<longleftrightarrow>
     minimum (slider_x w) = - 600 \<and> maximum (slider_x w) = 600 \<and>
     minimum (slider_y w) = - 600 \<and> maximum (slider_y w) = 600 \<and>
     minimum (slider_L1 w) = 1 \<and> maximum (slider_L1 w) = 600 \<and>
     minimum (slider_L2 w) = 1 \<and> maximum (slider_L2 w) = 600 \<and>
     - 600 \<le> val (slider_x w) \<and> val (slider_x w) \<le> 600 \<and>
     - 600 \<le> val (slider_y w) \<and> val (slider_y w) \<le> 600 \<and>
     1 \<le> val (slider_L1 w) \<and> val (slider_L1 w) \<le> 600 \<and>
     1 \<le> val (slider_L2 w) \<and> val (slider_L2 w) \<le> 600"

section \<open>Double precision\<close>

text \<open>
  A Python float is an IEEE 754 binary64 number: a finite value, one of the two
  infinities, or NaN. The sign of a zero is not represented: \<open>Finite 0\<close> stands for
  both zeros.
\<close>

datatype pyfloat = Finite real | PInf | NInf | NaN

text \<open>
  The exceptions of the solver's arithmetic: \<^verbatim>\<open>/\<close> raises
  \<^verbatim>\<open>ZeroDivisionError\<close> for a zero divisor, and \<^verbatim>\<open>**\<close> raises
  \<^verbatim>\<open>OverflowError\<close> when the power of a finite float is too large for a float.
\<close>

datatype float_error = Float_ZeroDivisionError | Float_OverflowError

text \<open>
  Rounding to nearest, ties to the even significand. The unit in the last place of a
  real \<open>r\<close> is \<open>2\<close> to the power \<open>ulp_exponent r\<close>: 53 significant bits, and
  never below \<open>2 ^ - 1074\<close>, the spacing of the subnormal numbers. A rounded value of
  magnitude \<open>2 ^ 1024\<close> or more is replaced by the infinity of its sign.
\<close>

definition round_half_even :: "real \<Rightarrow> int" where
  "round_half_even r =
     (let f = \<lfloor>r\<rfloor>; d = r - of_int f
      in if d < 1 / 2 then f else if 1 / 2 < d then f + 1 else if even f then f else f + 1)"

definition ulp_exponent :: "real \<Rightarrow> int" where
  "ulp_exponent r = max (\<lfloor>log 2 \<bar>r\<bar>\<rfloor> - 52) (- 1074)"

definition overflow_threshold :: real where
  "overflow_threshold = 2 ^ 1024"

definition round_double :: "real \<Rightarrow> pyfloat" where
  "round_double r =
     (if r = 0 then Finite 0
      else
        let e = ulp_exponent r;
            v = of_int (round_half_even (r / 2 powr of_int e)) * 2 powr of_int e
        in if overflow_threshold \<le> \<bar>v\<bar> then (if 0 < r then PInf else NInf) else Finite v)"

text \<open>
  The operations of Python floats. Addition, subtraction and multiplication never
  raise; they follow IEEE 754 on infinities and NaN.
\<close>

fun py_neg :: "pyfloat \<Rightarrow> pyfloat" where
  "py_neg (Finite a) = Finite (- a)"
| "py_neg PInf = NInf"
| "py_neg NInf = PInf"
| "py_neg NaN = NaN"

fun py_add :: "pyfloat \<Rightarrow> pyfloat \<Rightarrow> pyfloat" where
  "py_add NaN _ = NaN"
| "py_add _ NaN = NaN"
| "py_add (Finite a) (Finite b) = round_double (a + b)"
| "py_add PInf NInf = NaN"
| "py_add NInf PInf = NaN"
| "py_add PInf _ = PInf"
| "py_add _ PInf = PInf"
| "py_add NInf _ = NInf"
| "py_add _ NInf = NInf"

definition py_sub :: "pyfloat \<Rightarrow> pyfloat \<Rightarrow> pyfloat" where
  "py_sub a b = py_add a (py_neg b)"

fun py_mul :: "pyfloat \<Rightarrow> pyfloat \<Rightarrow> pyfloat" where
  "py_mul NaN _ = NaN"
| "py_mul _ NaN = NaN"
| "py_mul (Finite a) (Finite b) = round_double (a * b)"
| "py_mul PInf (Finite b) = (if b = 0 then NaN else if 0 < b then PInf else NInf)"
| "py_mul NInf (Finite b) = (if b = 0 then NaN else if 0 < b then NInf else PInf)"
| "py_mul (Finite a) PInf = (if a = 0 then NaN else if 0 < a then PInf else NInf)"
| "py_mul (Finite a) NInf = (if a = 0 then NaN else if 0 < a then NInf else PInf)"
| "py_mul PInf PInf = PInf"
| "py_mul PInf NInf = NInf"
| "py_mul NInf PInf = NInf"
| "py_mul NInf NInf = PInf"

text \<open>
  \<^verbatim>\<open>a / b\<close> tests the divisor first: a zero divisor raises whatever the dividend
  is.
\<close>

fun py_truediv_f :: "pyfloat \<Rightarrow> pyfloat \<Rightarrow> float_error + pyfloat" where
  "py_truediv_f a (Finite b) =
     (if b = 0 then Inl Float_ZeroDivisionError
      else Inr (case a of
                  Finite x \<Rightarrow> round_double (x / b)
                | PInf \<Rightarrow> (if 0 < b then PInf else NInf)
                | NInf \<Rightarrow> (if 0 < b then NInf else PInf)
                | NaN \<Rightarrow> NaN))"
| "py_truediv_f (Finite x) PInf = Inr (Finite 0)"
| "py_truediv_f (Finite x) NInf = Inr (Finite 0)"
| "py_truediv_f _ _ = Inr NaN"

text \<open>
  \<^verbatim>\<open>a ** 2\<close>: the rounded square, or \<^verbatim>\<open>OverflowError\<close> when the square of a
  finite \<open>a\<close> rounds to an infinity. An infinite or NaN operand raises nothing, and an
  underflow to zero raises nothing.
\<close>

fun py_pow2 :: "pyfloat \<Rightarrow> float_error + pyfloat" where
  "py_pow2 (Finite a) =
     (case round_double (a * a) of
        Finite v \<Rightarrow> Inr (Finite v)
      | _ \<Rightarrow> Inl Float_OverflowError)"
| "py_pow2 PInf = Inr PInf"
| "py_pow2 NInf = Inr PInf"
| "py_pow2 NaN = Inr NaN"

text \<open>
  \<^verbatim>\<open>abs\<close> and \<^verbatim>\<open>>\<close>: every comparison with NaN is false.
\<close>

fun py_abs :: "pyfloat \<Rightarrow> pyfloat" where
  "py_abs (Finite a) = Finite \<bar>a\<bar>"
| "py_abs PInf = PInf"
| "py_abs NInf = PInf"
| "py_abs NaN = NaN"

fun py_gt :: "pyfloat \<Rightarrow> pyfloat \<Rightarrow> bool" where
  "py_gt NaN _ = False"
| "py_gt _ NaN = False"
| "py_gt (Finite a) (Finite b) = (b < a)"
| "py_gt PInf PInf = False"
| "py_gt PInf _ = True"
| "py_gt _ PInf = False"
| "py_gt NInf _ = False"
| "py_gt _ NInf = True"

text \<open>
  numpy's functions, applied to floats. Each is taken as correctly rounded: the exact
  value, rounded once. They return NaN where the real function has no value and for a
  NaN argument, and raise nothing. \<^verbatim>\<open>np.arctan2\<close> on infinite arguments
  follows C99.
\<close>

fun np_sqrt_f :: "pyfloat \<Rightarrow> pyfloat" where
  "np_sqrt_f (Finite a) = (if a < 0 then NaN else round_double (sqrt a))"
| "np_sqrt_f PInf = PInf"
| "np_sqrt_f NInf = NaN"
| "np_sqrt_f NaN = NaN"

fun np_sin_f :: "pyfloat \<Rightarrow> pyfloat" where
  "np_sin_f (Finite a) = round_double (sin a)"
| "np_sin_f _ = NaN"

fun np_cos_f :: "pyfloat \<Rightarrow> pyfloat" where
  "np_cos_f (Finite a) = round_double (cos a)"
| "np_cos_f _ = NaN"

fun np_arctan2_f :: "pyfloat \<Rightarrow> pyfloat \<Rightarrow> pyfloat" where
  "np_arctan2_f NaN _ = NaN"
| "np_arctan2_f _ NaN = NaN"
| "np_arctan2_f (Finite a) (Finite b) = round_double (np_arctan2 a b)"
| "np_arctan2_f (Finite a) PInf = Finite 0"
| "np_arctan2_f (Finite a) NInf = round_double (if 0 \<le> a then pi else - pi)"
| "np_arctan2_f PInf (Finite b) = round_double (pi / 2)"
| "np_arctan2_f NInf (Finite b) = round_double (- (pi / 2))"
| "np_arctan2_f PInf PInf = round_double (pi / 4)"
| "np_arctan2_f PInf NInf = round_double (3 * pi / 4)"
| "np_arctan2_f NInf PInf = round_double (- (pi / 4))"
| "np_arctan2_f NInf NInf = round_double (- (3 * pi / 4))"

text \<open>
  \<^verbatim>\<open>np.degrees\<close> and \<^verbatim>\<open>np.radians\<close> multiply by the double nearest to
  \<open>180 / \<pi>\<close> and to \<open>\<pi> / 180\<close>.
\<close>

definition np_degrees_f :: "pyfloat \<Rightarrow> pyfloat" where
  "np_degrees_f t = py_mul t (round_double (180 / pi))"


text \<open>
  The solver in double precision. \<^verbatim>\<open>D\<close> is computed first, left to right: the
  four squares, the sum and the two differences, the product \<^verbatim>\<open>2 * L1 * L2\<close>, the
  division.
\<close>

definition elbow_cosine_f ::
  "pyfloat \<Rightarrow> pyfloat \<Rightarrow> pyfloat \<Rightarrow> pyfloat \<Rightarrow> float_error + pyfloat" where
  "elbow_cosine_f x y L1 L2 =
     (case py_pow2 x of Inl e \<Rightarrow> Inl e | Inr x2 \<Rightarrow>
      case py_pow2 y of Inl e \<Rightarrow> Inl e | Inr y2 \<Rightarrow>
      case py_pow2 L1 of Inl e \<Rightarrow> Inl e | Inr L1_2 \<Rightarrow>
      case py_pow2 L2 of Inl e \<Rightarrow> Inl e | Inr L2_2 \<Rightarrow>
        py_truediv_f (py_sub (py_sub (py_add x2 y2) L1_2) L2_2)
                     (py_mul (py_mul (Finite 2) L1) L2))"

definition inverse_kinematics_f ::
  "pyfloat \<Rightarrow> pyfloat \<Rightarrow> pyfloat \<Rightarrow> pyfloat
     \<Rightarrow> float_error + (pyfloat option \<times> pyfloat option)" where
  "inverse_kinematics_f x y L1 L2 =
     (case elbow_cosine_f x y L1 L2 of
        Inl e \<Rightarrow> Inl e
      | Inr D \<Rightarrow>
          if py_gt (py_abs D) (Finite 1) then Inr (None, None)
          else
            (case py_pow2 D of
               Inl e \<Rightarrow> Inl e
             | Inr D_2 \<Rightarrow>
                 let theta2 = np_arctan2_f (np_sqrt_f (py_sub (Finite 1) D_2)) D;
                     theta1 = py_sub (np_arctan2_f y x)
                                (np_arctan2_f (py_mul L2 (np_sin_f theta2))
                                   (py_add L1 (py_mul L2 (np_cos_f theta2))))
                 in Inr (Some (np_degrees_f theta1), Some (np_degrees_f theta2))))"


text \<open>One of the four squares that the solver computes first overflows.\<close>

definition some_square_overflows :: "pyfloat \<Rightarrow> pyfloat \<Rightarrow> pyfloat \<Rightarrow> pyfloat \<Rightarrow> bool" where
  "some_square_overflows x y L1 L2 \<longleftrightarrow>
     py_pow2 x = Inl Float_OverflowError \<or> py_pow2 y = Inl Float_OverflowError
     \<or> py_pow2 L1 = Inl Float_OverflowError \<or> py_pow2 L2 = Inl Float_OverflowError"

section \<open>Degrees and radians\<close>



section \<open>The solver's result in exact arithmetic, case by case\<close>

text \<open>
  The three outcomes of \<open>inverse_kinematics\<close>, in the order the body reaches them:
  the division fails, the guard fires, or both angles are computed.
\<close>

lemma inverse_kinematics_cases:
  "inverse_kinematics x y L1 L2 =
     (if L1 = 0 \<or> L2 = 0 then Inl ZeroDivisionError
      else if \<bar>elbow_cosine x y L1 L2\<bar> > 1 then Inr (None, None)
      else
        let D = elbow_cosine x y L1 L2;
            theta2 = np_arctan2 (sqrt (1 - D\<^sup>2)) D;
            theta1 = np_arctan2 y x - np_arctan2 (L2 * sin theta2) (L1 + L2 * cos theta2)
        in Inr (Some (np_degrees theta1), Some (np_degrees theta2)))"
  by (simp add: inverse_kinematics_def py_truediv_def elbow_cosine_def Let_def)


section \<open>The polar angle\<close>



text \<open>
  \<open>np_arctan2 y x\<close> is the polar angle of \<open>(x, y)\<close>: multiplying its cosine and sine by
  the distance from the origin gives the point back. At the origin both sides are zero.
\<close>

lemma np_arctan2_polar:
  "sqrt (x\<^sup>2 + y\<^sup>2) * cos (np_arctan2 y x) = x"
  "sqrt (x\<^sup>2 + y\<^sup>2) * sin (np_arctan2 y x) = y"
proof -
  have key: "sqrt (x\<^sup>2 + y\<^sup>2) = \<bar>x\<bar> * sqrt (1 + (y / x)\<^sup>2)" if "x \<noteq> 0"
  proof -
    have "x\<^sup>2 + y\<^sup>2 = x\<^sup>2 * (1 + (y / x)\<^sup>2)"
      using that by (simp add: field_simps power2_eq_square)
    then show ?thesis by (simp add: real_sqrt_mult)
  qed
  have nz: "sqrt (1 + (y / x)\<^sup>2) \<noteq> 0"
    by (metis add_pos_nonneg less_numeral_extra(1) real_sqrt_gt_zero zero_le_power2 less_irrefl)
  consider "0 < x" | "x < 0" | "x = 0" by linarith
  then show "sqrt (x\<^sup>2 + y\<^sup>2) * cos (np_arctan2 y x) = x"
  proof cases
    case 1
    then show ?thesis using key nz by (simp add: np_arctan2_def cos_arctan)
  next
    case 2
    then show ?thesis using key nz by (simp add: np_arctan2_def cos_arctan)
  next
    case 3
    then show ?thesis by (simp add: np_arctan2_def)
  qed
  consider "0 < x" | "x < 0" | "x = 0" by linarith
  then show "sqrt (x\<^sup>2 + y\<^sup>2) * sin (np_arctan2 y x) = y"
  proof cases
    case 1
    then show ?thesis using key nz by (simp add: np_arctan2_def sin_arctan)
  next
    case 2
    then show ?thesis using key nz by (simp add: np_arctan2_def sin_arctan)
  next
    case 3
    then show ?thesis by (simp add: np_arctan2_def)
  qed
qed

lemma elbow_angle_cos_sin:
  assumes "\<bar>D\<bar> \<le> 1"
  shows "cos (np_arctan2 (sqrt (1 - D\<^sup>2)) D) = D"
    and "sin (np_arctan2 (sqrt (1 - D\<^sup>2)) D) = sqrt (1 - D\<^sup>2)"
proof -
  have nonneg: "0 \<le> 1 - D\<^sup>2"
    using assms by (simp add: abs_le_square_iff [of D 1, simplified])
  then have "D\<^sup>2 + (sqrt (1 - D\<^sup>2))\<^sup>2 = 1" by simp
  then have one: "sqrt (D\<^sup>2 + (sqrt (1 - D\<^sup>2))\<^sup>2) = 1" by simp
  show "cos (np_arctan2 (sqrt (1 - D\<^sup>2)) D) = D"
    using np_arctan2_polar(1) [of D "sqrt (1 - D\<^sup>2)"] one by simp
  show "sin (np_arctan2 (sqrt (1 - D\<^sup>2)) D) = sqrt (1 - D\<^sup>2)"
    using np_arctan2_polar(2) [of D "sqrt (1 - D\<^sup>2)"] one by simp
qed

section \<open>The guard and the reachable annulus\<close>

text \<open>
  For positive link lengths the test \<open>\<bar>D\<bar> \<le> 1\<close> on the exact \<open>D\<close> says exactly that
  the target lies between the circles of radius \<open>\<bar>L1 - L2\<bar>\<close> and \<open>L1 + L2\<close>.
\<close>

lemma elbow_cosine_reachable:
  assumes "0 < L1" "0 < L2"
  shows "\<bar>elbow_cosine x y L1 L2\<bar> \<le> 1 \<longleftrightarrow>
         \<bar>L1 - L2\<bar> \<le> sqrt (x\<^sup>2 + y\<^sup>2) \<and> sqrt (x\<^sup>2 + y\<^sup>2) \<le> L1 + L2"
proof -
  have pos: "0 < 2 * L1 * L2" using assms by simp
  have "\<bar>elbow_cosine x y L1 L2\<bar> \<le> 1 \<longleftrightarrow>
        \<bar>x\<^sup>2 + y\<^sup>2 - L1\<^sup>2 - L2\<^sup>2\<bar> \<le> 2 * L1 * L2"
    unfolding elbow_cosine_def using pos by (simp add: abs_if field_simps)
  also have "\<dots> \<longleftrightarrow> (L1 - L2)\<^sup>2 \<le> x\<^sup>2 + y\<^sup>2 \<and> x\<^sup>2 + y\<^sup>2 \<le> (L1 + L2)\<^sup>2"
    by (auto simp: power2_eq_square algebra_simps abs_le_iff)
  also have "(L1 - L2)\<^sup>2 \<le> x\<^sup>2 + y\<^sup>2 \<longleftrightarrow> \<bar>L1 - L2\<bar> \<le> sqrt (x\<^sup>2 + y\<^sup>2)"
    by (metis real_sqrt_abs real_sqrt_le_iff)
  also have "x\<^sup>2 + y\<^sup>2 \<le> (L1 + L2)\<^sup>2 \<longleftrightarrow> sqrt (x\<^sup>2 + y\<^sup>2) \<le> L1 + L2"
  proof -
    have "sqrt ((L1 + L2)\<^sup>2) = L1 + L2" using assms by simp
    then show ?thesis by (metis real_sqrt_le_iff)
  qed
  finally show ?thesis .
qed

section \<open>Round trip through the forward kinematics\<close>



section \<open>The elbow angle in exact arithmetic\<close>


section \<open>Bounds for the worked example\<close>

text \<open>
  Polynomial bounds for \<open>arctan\<close> on the non-negative reals, each from the sign of a
  derivative, and the bounds for \<open>\<pi>\<close> they give through Machin's formula.
\<close>

lemma arctan_le_self_nonneg:
  fixes x :: real
  assumes "0 \<le> x"
  shows "arctan x \<le> x"
proof -
  have "(\<lambda>t. t - arctan t) 0 \<le> (\<lambda>t. t - arctan t) x"
  proof (rule DERIV_nonneg_imp_nondecreasing [OF assms])
    fix t :: real
    have d: "((\<lambda>t. t - arctan t) has_real_derivative 1 - inverse (1 + t\<^sup>2)) (at t)"
      by (auto intro!: derivative_eq_intros)
    have "1 \<le> 1 + t\<^sup>2" by simp
    then have "inverse (1 + t\<^sup>2) \<le> 1" by (rule inverse_le_1_iff [THEN iffD2, OF disjI2])
    then have "0 \<le> 1 - inverse (1 + t\<^sup>2)" by simp
    with d show "\<exists>y. ((\<lambda>t. t - arctan t) has_real_derivative y) (at t) \<and> 0 \<le> y"
      by blast
  qed
  then show ?thesis by simp
qed

lemma arctan_ge_cubic:
  fixes x :: real
  assumes "0 \<le> x"
  shows "x - x ^ 3 / 3 \<le> arctan x"
proof -
  let ?f = "\<lambda>t::real. arctan t - (t - t ^ 3 / 3)"
  have "?f 0 \<le> ?f x"
  proof (rule DERIV_nonneg_imp_nondecreasing [OF assms])
    fix t :: real
    have d: "(?f has_real_derivative inverse (1 + t\<^sup>2) - (1 - t\<^sup>2)) (at t)"
      by (auto intro!: derivative_eq_intros)
    have pos: "0 < 1 + t\<^sup>2" by (simp add: add_pos_nonneg)
    have "(1 - t\<^sup>2) * (1 + t\<^sup>2) = 1 - (t\<^sup>2)\<^sup>2"
      by (simp add: algebra_simps power2_eq_square)
    also have "\<dots> \<le> 1" by simp
    finally have "1 - t\<^sup>2 \<le> 1 / (1 + t\<^sup>2)"
      using pos by (simp add: pos_le_divide_eq)
    then have "0 \<le> inverse (1 + t\<^sup>2) - (1 - t\<^sup>2)"
      by (simp add: inverse_eq_divide)
    with d show "\<exists>y. (?f has_real_derivative y) (at t) \<and> 0 \<le> y"
      by blast
  qed
  then show ?thesis by simp
qed

lemma arctan_le_quintic:
  fixes x :: real
  assumes "0 \<le> x"
  shows "arctan x \<le> x - x ^ 3 / 3 + x ^ 5 / 5"
proof -
  let ?f = "\<lambda>t::real. t - t ^ 3 / 3 + t ^ 5 / 5 - arctan t"
  have "?f 0 \<le> ?f x"
  proof (rule DERIV_nonneg_imp_nondecreasing [OF assms])
    fix t :: real
    have d: "(?f has_real_derivative 1 - t\<^sup>2 + t ^ 4 - inverse (1 + t\<^sup>2)) (at t)"
      by (auto intro!: derivative_eq_intros)
    have pos: "0 < 1 + t\<^sup>2" by (simp add: add_pos_nonneg)
    have "(1 - t\<^sup>2 + t ^ 4) * (1 + t\<^sup>2) = 1 + t ^ 6"
      by (simp add: algebra_simps power2_eq_square power_numeral_reduce)
    moreover have "0 \<le> t ^ 6" by simp
    ultimately have "1 \<le> (1 - t\<^sup>2 + t ^ 4) * (1 + t\<^sup>2)" by linarith
    then have "1 / (1 + t\<^sup>2) \<le> 1 - t\<^sup>2 + t ^ 4"
      using pos by (simp add: pos_divide_le_eq)
    then have "0 \<le> 1 - t\<^sup>2 + t ^ 4 - inverse (1 + t\<^sup>2)"
      by (simp add: inverse_eq_divide)
    with d show "\<exists>y. (?f has_real_derivative y) (at t) \<and> 0 \<le> y"
      by blast
  qed
  then show ?thesis by simp
qed

lemma pi_bounds: "31405 / 10000 < pi" "pi < 31417 / 10000"
proof -
  have "(1/5) - (1/5) ^ 3 / 3 \<le> arctan (1/5 :: real)"
    by (rule arctan_ge_cubic) simp
  then have a5_lo: "19733 / 100000 \<le> arctan (1/5 :: real)"
    by (simp add: power_numeral_reduce)
  have "arctan (1/5 :: real) \<le> (1/5) - (1/5) ^ 3 / 3 + (1/5) ^ 5 / 5"
    by (rule arctan_le_quintic) simp
  then have a5_hi: "arctan (1/5 :: real) \<le> 197398 / 1000000"
    by (simp add: power_numeral_reduce)
  have "arctan (1/239 :: real) \<le> 1/239"
    by (rule arctan_le_self_nonneg) simp
  then have a239_hi: "arctan (1/239 :: real) \<le> 41842 / 10000000"
    by simp
  have "(1/239) - (1/239) ^ 3 / 3 \<le> arctan (1/239 :: real)"
    by (rule arctan_ge_cubic) simp
  then have a239_lo: "41840 / 10000000 \<le> arctan (1/239 :: real)"
    by (simp add: power_numeral_reduce)
  have m: "pi = 16 * arctan (1/5) - 4 * arctan (1/239)"
    using machin by simp
  show "31405 / 10000 < pi"
    using a5_lo a239_hi unfolding m by linarith
  show "pi < 31417 / 10000"
    using a5_hi a239_lo unfolding m by linarith
qed

text \<open>
  For the target \<open>(3, 0)\<close> and links \<open>2, 2\<close>: the elbow angle is
  \<open>\<pi>/2 - arctan (1 / sqrt 63)\<close>, and the shoulder angle is minus half of it (the half
  angle formula for the tangent).
\<close>

lemma example_elbow_radians:
  defines "t2 \<equiv> np_arctan2 (sqrt (1 - (1/8)\<^sup>2)) (1/8)"
  shows "t2 = pi / 2 - arctan (1 / sqrt 63)"
    and "1253135 / 10000000 \<le> arctan (1 / sqrt 63)"
    and "arctan (1 / sqrt 63) \<le> 1253298 / 10000000"
proof -
  have "sqrt (1 - (1/8)\<^sup>2) = sqrt (63 / 64)"
    by (simp add: power2_eq_square)
  also have "\<dots> = sqrt 63 / 8"
    using real_sqrt_abs [of 8] by (simp add: real_sqrt_divide)
  finally have s: "sqrt (1 - (1/8)\<^sup>2) = sqrt 63 / 8" .
  have pos: "0 < sqrt 63" by simp
  have "t2 = arctan (sqrt 63)"
    by (simp add: t2_def np_arctan2_def s)
  also have "\<dots> = pi / 2 - arctan (1 / sqrt 63)"
    using arctan_inverse [of "sqrt 63"] pos by simp
  finally show "t2 = pi / 2 - arctan (1 / sqrt 63)" .
  have sq: "(1 / sqrt 63)\<^sup>2 = 1 / 63"
    by (simp add: power_divide)
  have nonneg: "0 \<le> 1 / sqrt 63" by simp
  have lo: "12598 / 100000 \<le> 1 / sqrt 63"
  proof (rule power2_le_imp_le [OF _ nonneg])
    show "(12598 / 100000)\<^sup>2 \<le> (1 / sqrt 63)\<^sup>2"
      unfolding sq by (simp add: power2_eq_square)
  qed
  have hi: "1 / sqrt 63 \<le> 12599 / 100000"
  proof (rule power2_le_imp_le)
    show "(1 / sqrt 63)\<^sup>2 \<le> (12599 / 100000)\<^sup>2"
      unfolding sq by (simp add: power2_eq_square)
  qed simp
  have "12598 / 100000 - (12598 / 100000) ^ 3 / 3 \<le> arctan (12598 / 100000 :: real)"
    by (rule arctan_ge_cubic) simp
  then have "1253135 / 10000000 \<le> arctan (12598 / 100000 :: real)"
    by (simp add: power_numeral_reduce)
  also have "\<dots> \<le> arctan (1 / sqrt 63)"
    by (rule arctan_monotone' [OF lo])
  finally show "1253135 / 10000000 \<le> arctan (1 / sqrt 63)" .
  have "arctan (1 / sqrt 63) \<le> arctan (12599 / 100000)"
    by (rule arctan_monotone' [OF hi])
  also have "\<dots> \<le> 12599 / 100000 - (12599 / 100000) ^ 3 / 3 + (12599 / 100000) ^ 5 / 5"
    by (rule arctan_le_quintic) simp
  also have "\<dots> \<le> 1253298 / 10000000"
    by (simp add: power_numeral_reduce)
  finally show "arctan (1 / sqrt 63) \<le> 1253298 / 10000000" .
qed

lemma example_shoulder_radians:
  defines "t2 \<equiv> np_arctan2 (sqrt (1 - (1/8)\<^sup>2)) (1/8)"
  shows "np_arctan2 0 3 - np_arctan2 (2 * sin t2) (2 + 2 * cos t2) = - (t2 / 2)"
proof -
  have t2: "t2 = pi / 2 - arctan (1 / sqrt 63)"
    unfolding t2_def by (rule example_elbow_radians(1))
  have a: "0 < arctan (1 / sqrt 63)" "arctan (1 / sqrt 63) < pi / 2"
    by (simp, rule arctan_ubound)
  have half: "- (pi / 2) < t2 / 2" "t2 / 2 < pi / 2"
    using a t2 by linarith+
  have c: "cos t2 = 1/8"
    unfolding t2_def by (rule elbow_angle_cos_sin(1)) simp
  have "tan (t2 / 2) = sin (2 * (t2 / 2)) / (cos (2 * (t2 / 2)) + 1)"
    by (rule tan_half)
  also have "\<dots> = sin t2 / (cos t2 + 1)"
    by simp
  also have "\<dots> = 2 * sin t2 / (2 + 2 * cos t2)"
    by (simp add: c)
  finally have q: "2 * sin t2 / (2 + 2 * cos t2) = tan (t2 / 2)"
    by simp
  have off: "arctan (2 * sin t2 / (2 + 2 * cos t2)) = t2 / 2"
    unfolding q by (rule arctan_tan [OF half])
  have "0 < 2 + 2 * cos t2"
    by (simp add: c)
  then have "np_arctan2 (2 * sin t2) (2 + 2 * cos t2) = t2 / 2"
    by (simp only: np_arctan2_def if_True off)
  moreover have "np_arctan2 0 3 = 0"
    by (simp add: np_arctan2_def)
  ultimately show ?thesis
    by (simp only: diff_0)
qed

text \<open>
  C6. Worked example: for \<open>x = 3\<close>, \<open>y = 0\<close>, \<open>L1 = 2\<close>, \<open>L2 = 2\<close> the solver
  computes \<open>D = (9 - 4 - 4) / 8 = 0.125\<close> and returns \<open>theta2\<close> about \<open>82.82\<close> and
  \<open>theta1\<close> about \<open>-41.41\<close> degrees: each within \<open>0.005\<close> of the stated value, that
  is, equal to it when rounded to two decimals.
\<close>

theorem worked_example_3_0_2_2:
  "elbow_cosine 3 0 2 2 = 0.125
   \<and> (\<exists>theta1 theta2. inverse_kinematics 3 0 2 2 = Inr (Some theta1, Some theta2)
        \<and> \<bar>theta2 - 82.82\<bar> < 0.005 \<and> \<bar>theta1 - (- 41.41)\<bar> < 0.005)"
proof -
  define t2 where "t2 = np_arctan2 (sqrt (1 - (1/8)\<^sup>2)) (1/8)"
  define a where "a = arctan (1 / sqrt 63)"
  have D: "elbow_cosine 3 0 2 2 = 1/8"
    by (simp add: elbow_cosine_def)
  have ik: "inverse_kinematics 3 0 2 2 =
      Inr (Some (np_degrees (np_arctan2 0 3 - np_arctan2 (2 * sin t2) (2 + 2 * cos t2))),
           Some (np_degrees t2))"
    by (simp add: inverse_kinematics_cases D Let_def t2_def)
  have t1: "np_arctan2 0 3 - np_arctan2 (2 * sin t2) (2 + 2 * cos t2) = - (t2 / 2)"
    unfolding t2_def by (rule example_shoulder_radians)
  have t2a: "t2 = pi / 2 - a"
    unfolding t2_def a_def by (rule example_elbow_radians(1))
  have a: "1253135 / 10000000 \<le> a" "a \<le> 1253298 / 10000000"
    unfolding a_def by (rule example_elbow_radians(2), rule example_elbow_radians(3))
  have deg2: "np_degrees t2 = 90 - 180 * a / pi"
    using pi_gt_zero by (simp add: np_degrees_def t2a field_simps)
  have "7175 / 1000 * pi < 180 * a" "180 * a < 7185 / 1000 * pi"
    using a pi_bounds by linarith+
  then have q: "7175 / 1000 < 180 * a / pi" "180 * a / pi < 7185 / 1000"
    using pi_gt_zero by (simp_all add: pos_less_divide_eq pos_divide_less_eq)
  have b2: "82815 / 1000 < np_degrees t2" "np_degrees t2 < 82825 / 1000"
    using q unfolding deg2 by linarith+
  have deg1: "np_degrees (- (t2 / 2)) = - (np_degrees t2 / 2)"
    by (simp add: np_degrees_def)
  have b1: "- (41415 / 1000) < np_degrees (- (t2 / 2))" "np_degrees (- (t2 / 2)) < - (41405 / 1000)"
    using b2 unfolding deg1 by linarith+
  have "\<bar>np_degrees t2 - 8282 / 100\<bar> < 5 / 1000"
    "\<bar>np_degrees (- (t2 / 2)) - (- (4141 / 100))\<bar> < 5 / 1000"
    using b1 b2 by linarith+
  then have "\<bar>np_degrees t2 - 82.82\<bar> < 0.005"
    "\<bar>np_degrees (- (t2 / 2)) - (- 41.41)\<bar> < 0.005"
    by simp_all
  then show ?thesis
    using D ik t1 by simp
qed

section \<open>The success path in exact arithmetic\<close>


section \<open>Both angles or none\<close>

text \<open>
  C9. The solver's failure result has both components absent: it never returns exactly
  one of \<open>theta1\<close>, \<open>theta2\<close> absent, so \<open>theta1\<close> is absent if and only if
  \<open>theta2\<close> is, and the test of \<open>update_plot\<close>, that both are present, holds exactly
  when the result is not \<^verbatim>\<open>(None, None)\<close>: the canvas shows the message for
  \<^verbatim>\<open>(None, None)\<close> and the arm for every other result.
\<close>

theorem failure_is_both_absent:
  assumes "inverse_kinematics x y L1 L2 = Inr (theta1, theta2)"
    and "update_plot_args w = (x, y, L1, L2)"
  shows "(theta1 = None \<longleftrightarrow> theta2 = None)
       \<and> ((theta1 \<noteq> None \<and> theta2 \<noteq> None) \<longleftrightarrow> (theta1, theta2) \<noteq> (None, None))
       \<and> (update_plot w = Inr Solution_Not_Possible \<longleftrightarrow> (theta1, theta2) = (None, None))
       \<and> (update_plot w = Inr (Arm_Drawn (plot_robot_arm (the theta1) (the theta2) L1 L2))
            \<longleftrightarrow> (\<exists>t1 t2. (theta1, theta2) = (Some t1, Some t2)))"
proof -
  have "(theta1, theta2) = (None, None) \<or> (\<exists>t1 t2. (theta1, theta2) = (Some t1, Some t2))"
    using assms(1) by (auto simp: inverse_kinematics_cases Let_def split: if_splits)
  then show ?thesis
    using assms by (auto simp: update_plot_def)
qed

lemma init_ui_values:
  "update_plot_args init_ui = (2, 2, 2, 2)"
  by (simp add: update_plot_args_def init_ui_def create_slider_with_label_def
      setRange_def setValue_def QSlider_def)

theorem failure_is_both_absent_witness:
  "update_plot (after_events [(End_Effector_X, 600), (End_Effector_Y, 600)])
     = Inr Solution_Not_Possible
   \<and> inverse_kinematics 6 6 2 2 = Inr (None, None)
   \<and> (\<exists>t1 t2. inverse_kinematics 2 2 2 2 = Inr (Some t1, Some t2)
        \<and> update_plot init_ui = Inr (Arm_Drawn (plot_robot_arm t1 t2 2 2)))"
proof -
  have far: "inverse_kinematics 6 6 2 2 = Inr (None, None)"
    by (simp add: inverse_kinematics_cases elbow_cosine_def)
  have far_args:
    "update_plot_args (after_events [(End_Effector_X, 600), (End_Effector_Y, 600)]) = (6, 6, 2, 2)"
    by (simp add: after_events_def update_plot_args_def init_ui_def
        create_slider_with_label_def setRange_def setValue_def QSlider_def)
  obtain t1 t2 where near: "inverse_kinematics 2 2 2 2 = Inr (Some t1, Some t2)"
    by (simp add: inverse_kinematics_cases elbow_cosine_def Let_def)
  show ?thesis
    using failure_is_both_absent [OF far far_args]
      failure_is_both_absent [OF near init_ui_values] far near
    by auto
qed

section \<open>What the sliders can send\<close>

lemma ranges_set_init_ui: "ranges_set init_ui"
  by (simp add: ranges_set_def init_ui_def create_slider_with_label_def
      setRange_def setValue_def QSlider_def)

lemma ranges_set_slider_moved: "ranges_set w \<Longrightarrow> ranges_set (slider_moved w ev)"
proof -
  assume inv: "ranges_set w"
  obtain c v where ev: "ev = (c, v)" by (cases ev)
  show ?thesis
    using inv unfolding ev by (cases c) (auto simp: ranges_set_def setValue_def)
qed

lemma ranges_set_foldl: "ranges_set w \<Longrightarrow> ranges_set (foldl slider_moved w evs)"
  by (induction evs arbitrary: w) (simp_all add: ranges_set_slider_moved)

lemma ranges_set_after_events: "ranges_set (after_events evs)"
  unfolding after_events_def by (rule ranges_set_foldl [OF ranges_set_init_ui])

text \<open>
  C10. Every call of the solver that \<open>update_plot\<close> issues, after \<open>init_ui\<close> and any
  sequence of slider events, has \<open>x\<close> and \<open>y\<close> in \<open>[-6, 6]\<close> and \<open>L1\<close>, \<open>L2\<close> in
  \<open>[0.01, 6]\<close>: the sliders are clamped to \<open>[-600, 600]\<close> and \<open>[1, 600]\<close> and each
  value is divided by \<open>100\<close>. So \<open>L1 L2 > 0\<close> on every such call, and neither the solver
  nor \<open>update_plot\<close> raises \<^verbatim>\<open>ZeroDivisionError\<close> there.
\<close>

theorem gui_calls_within_ranges:
  "(case update_plot_args (after_events evs) of (x, y, L1, L2) \<Rightarrow>
      - 6 \<le> x \<and> x \<le> 6 \<and> - 6 \<le> y \<and> y \<le> 6
      \<and> 1 / 100 \<le> L1 \<and> L1 \<le> 6 \<and> 1 / 100 \<le> L2 \<and> L2 \<le> 6
      \<and> 0 < L1 * L2
      \<and> inverse_kinematics x y L1 L2 \<noteq> Inl ZeroDivisionError)
   \<and> update_plot (after_events evs) \<noteq> Inl ZeroDivisionError"
proof -
  define w where "w = after_events evs"
  have inv: "ranges_set w"
    unfolding w_def by (rule ranges_set_after_events)
  obtain x y L1 L2 where args: "update_plot_args w = (x, y, L1, L2)"
    by (cases "update_plot_args w") auto
  have x: "- 6 \<le> x" "x \<le> 6" and y: "- 6 \<le> y" "y \<le> 6"
    and L1: "1 / 100 \<le> L1" "L1 \<le> 6" and L2: "1 / 100 \<le> L2" "L2 \<le> 6"
    using inv args by (auto simp: ranges_set_def update_plot_args_def)
  have pos: "0 < L1" "0 < L2" using L1(1) L2(1) by linarith+
  then have prod: "0 < L1 * L2" by simp
  have ik: "inverse_kinematics x y L1 L2 \<noteq> Inl ZeroDivisionError"
    using pos by (simp add: inverse_kinematics_cases Let_def)
  have up: "update_plot w \<noteq> Inl ZeroDivisionError"
    using ik args by (auto simp: update_plot_def split: sum.splits)
  show ?thesis
    using args x y L1 L2 prod ik up by (simp add: w_def [symmetric])
qed




section \<open>Rounding to a double\<close>

lemma round_half_even_int: "round_half_even (of_int n) = n"
  by (simp add: round_half_even_def)

lemma round_half_even_near:
  assumes "\<bar>x - of_int m\<bar> < 1 / 2"
  shows "round_half_even x = m"
proof -
  have lo: "of_int m - 1 / 2 < x" and hi: "x < of_int m + 1 / 2"
    using assms by linarith+
  show ?thesis
  proof (cases "of_int m \<le> x")
    case True
    then have f: "\<lfloor>x\<rfloor> = m"
      using hi by (intro floor_unique) linarith+
    show ?thesis
      using hi by (simp add: round_half_even_def f Let_def)
  next
    case False
    then have f: "\<lfloor>x\<rfloor> = m - 1"
      using lo by (intro floor_unique) (simp_all add: algebra_simps)
    show ?thesis
      using lo False by (simp add: round_half_even_def f Let_def)
  qed
qed

lemma round_half_even_close: "\<bar>of_int (round_half_even x) - x\<bar> \<le> 1 / 2"
proof -
  have "of_int \<lfloor>x\<rfloor> \<le> x" "x < of_int \<lfloor>x\<rfloor> + 1"
    by linarith+
  then show ?thesis
    by (auto simp: round_half_even_def Let_def abs_le_iff)
qed

lemma floor_log2_bounds:
  assumes "r \<noteq> 0"
  shows "2 powr of_int \<lfloor>log 2 \<bar>r\<bar>\<rfloor> \<le> \<bar>r\<bar>" and "\<bar>r\<bar> < 2 powr of_int (\<lfloor>log 2 \<bar>r\<bar>\<rfloor> + 1)"
proof -
  have pos: "0 < \<bar>r\<bar>" using assms by simp
  have id: "2 powr log 2 \<bar>r\<bar> = \<bar>r\<bar>"
    using pos by simp
  have "2 powr of_int \<lfloor>log 2 \<bar>r\<bar>\<rfloor> \<le> 2 powr log 2 \<bar>r\<bar>"
    by (rule powr_mono) simp_all
  then show "2 powr of_int \<lfloor>log 2 \<bar>r\<bar>\<rfloor> \<le> \<bar>r\<bar>"
    by (simp only: id)
  have "2 powr log 2 \<bar>r\<bar> < 2 powr of_int (\<lfloor>log 2 \<bar>r\<bar>\<rfloor> + 1)"
    by (rule powr_less_mono) simp_all
  then show "\<bar>r\<bar> < 2 powr of_int (\<lfloor>log 2 \<bar>r\<bar>\<rfloor> + 1)"
    by (simp only: id)
qed

lemma overflow_threshold_powr: "overflow_threshold = 2 powr real_of_int 1024"
  by (simp add: overflow_threshold_def)

lemma powr_int_less_iff: "(2::real) powr real_of_int a < 2 powr real_of_int b \<longleftrightarrow> a < b"
  by simp

lemma powr_int_le_iff: "(2::real) powr real_of_int a \<le> 2 powr real_of_int b \<longleftrightarrow> a \<le> b"
  by simp



lemma ulp_exponent_le:
  fixes r :: real
  assumes "r \<noteq> 0" and "\<bar>r\<bar> < 2 powr real_of_int (j + 53)" and "- 1074 \<le> j"
  shows "ulp_exponent r \<le> j"
proof -
  have "(2::real) powr real_of_int \<lfloor>log 2 \<bar>r\<bar>\<rfloor> < 2 powr real_of_int (j + 53)"
    using floor_log2_bounds(1) [OF assms(1)] assms(2) by linarith
  then have "\<lfloor>log 2 \<bar>r\<bar>\<rfloor> < j + 53"
    by (simp only: powr_int_less_iff)
  then show ?thesis
    using assms(3) by (simp add: ulp_exponent_def)
qed

text \<open>A number with at most 53 significant bits is its own rounding.\<close>

lemma round_double_dyadic:
  assumes "n \<noteq> 0" and "\<bar>n\<bar> < 2 ^ 53" and "- 1074 \<le> j"
    and "\<bar>real_of_int n * 2 powr real_of_int j\<bar> < overflow_threshold"
  shows "round_double (real_of_int n * 2 powr real_of_int j)
         = Finite (real_of_int n * 2 powr real_of_int j)"
proof -
  define r :: real where "r = real_of_int n * 2 powr real_of_int j"
  define e where "e = ulp_exponent r"
  have nz: "r \<noteq> 0"
    using assms(1) by (simp add: r_def)
  have "\<bar>r\<bar> = \<bar>real_of_int n\<bar> * 2 powr real_of_int j"
    by (simp add: r_def abs_mult)
  also have "\<dots> < 2 ^ 53 * 2 powr real_of_int j"
  proof (rule mult_strict_right_mono)
    have "real_of_int \<bar>n\<bar> < real_of_int (2 ^ 53)"
      using assms(2) by (simp only: of_int_less_iff)
    then show "\<bar>real_of_int n\<bar> < 2 ^ 53" by simp
    show "0 < (2::real) powr real_of_int j" by simp
  qed
  also have "\<dots> = 2 powr real_of_int (j + 53)"
    by (simp add: powr_add)
  finally have "e \<le> j"
    unfolding e_def using nz assms(3) by (intro ulp_exponent_le)
  then obtain d :: nat where d: "j = e + int d"
    by (metis zle_iff_zadd)
  have "r / 2 powr real_of_int e = real_of_int n * 2 powr real_of_int (int d)"
    by (simp add: r_def d powr_add)
  also have "\<dots> = real_of_int (n * 2 ^ d)"
    by (simp add: powr_realpow)
  finally have m: "round_half_even (r / 2 powr real_of_int e) = n * 2 ^ d"
    by (simp only: round_half_even_int)
  have v: "real_of_int (n * 2 ^ d) * 2 powr real_of_int e = r"
    by (simp add: r_def d powr_add powr_realpow)
  have "\<not> overflow_threshold \<le> \<bar>r\<bar>"
    using assms(4) by (simp add: r_def)
  then have "round_double r = Finite r"
    using nz by (simp only: round_double_def e_def [symmetric] Let_def m v if_False)
  then show ?thesis
    by (simp only: r_def)
qed

lemma round_double_overflow:
  assumes "overflow_threshold \<le> \<bar>r\<bar>"
  shows "round_double r = (if 0 < r then PInf else NInf)"
proof -
  have "0 < overflow_threshold" by (simp add: overflow_threshold_def)
  then have nz: "r \<noteq> 0" using assms by auto
  define k where "k = \<lfloor>log 2 \<bar>r\<bar>\<rfloor>"
  have k: "2 powr real_of_int k \<le> \<bar>r\<bar>" "\<bar>r\<bar> < 2 powr real_of_int (k + 1)"
    unfolding k_def by (rule floor_log2_bounds [OF nz])+
  have "(2::real) powr real_of_int 1024 < 2 powr real_of_int (k + 1)"
    using assms k(2) unfolding overflow_threshold_powr by linarith
  then have "(1024::int) < k + 1"
    by (simp only: powr_int_less_iff)
  then have big: "1024 \<le> k" by simp
  then have e: "ulp_exponent r = k - 52"
    by (simp add: ulp_exponent_def k_def)
  define x where "x = r / 2 powr real_of_int (k - 52)"
  define m where "m = round_half_even x"
  have p52: "(2::real) powr real_of_int k = 2 ^ 52 * 2 powr real_of_int (k - 52)"
  proof -
    have "(2::real) powr real_of_int k = 2 powr (52 + real_of_int (k - 52))" by simp
    also have "\<dots> = 2 powr 52 * 2 powr real_of_int (k - 52)"
      by (simp only: powr_add)
    finally show ?thesis by simp
  qed
  have "\<bar>x\<bar> = \<bar>r\<bar> / 2 powr real_of_int (k - 52)"
    by (simp add: x_def)
  moreover have "2 ^ 52 * 2 powr real_of_int (k - 52) / 2 powr real_of_int (k - 52)
                 \<le> \<bar>r\<bar> / 2 powr real_of_int (k - 52)"
    using k(1) unfolding p52 by (intro divide_right_mono) simp_all
  ultimately have xbig: "2 ^ 52 \<le> \<bar>x\<bar>" by simp
  have "\<bar>real_of_int m - x\<bar> \<le> 1 / 2"
    unfolding m_def by (rule round_half_even_close)
  then have "2 ^ 52 - 1 / 2 \<le> \<bar>real_of_int m\<bar>"
    using xbig by linarith
  then have "real_of_int (2 ^ 52 - 1) < \<bar>real_of_int m\<bar>"
    by simp
  then have "real_of_int (2 ^ 52 - 1) < real_of_int \<bar>m\<bar>"
    by simp
  then have "2 ^ 52 - 1 < \<bar>m\<bar>"
    by (simp only: of_int_less_iff)
  then have "2 ^ 52 \<le> \<bar>m\<bar>" by simp
  then have "real_of_int (2 ^ 52) \<le> real_of_int \<bar>m\<bar>"
    by (simp only: of_int_le_iff)
  then have mbig: "2 ^ 52 \<le> \<bar>real_of_int m\<bar>" by simp
  have "overflow_threshold \<le> 2 powr real_of_int k"
    unfolding overflow_threshold_powr using big by (simp only: powr_int_le_iff)
  also have "\<dots> = 2 ^ 52 * 2 powr real_of_int (k - 52)"
    by (rule p52)
  also have "\<dots> \<le> \<bar>real_of_int m\<bar> * 2 powr real_of_int (k - 52)"
    using mbig by (intro mult_right_mono) simp_all
  finally have "overflow_threshold \<le> \<bar>real_of_int m * 2 powr real_of_int (k - 52)\<bar>"
    by (simp add: abs_mult)
  then show ?thesis
    using nz by (simp only: round_double_def e Let_def m_def x_def if_True if_False)
qed

lemma round_double_underflow:
  assumes "\<bar>r\<bar> < 2 powr real_of_int (- 1075)"
  shows "round_double r = Finite 0"
proof (cases "r = 0")
  case True
  then show ?thesis by (simp add: round_double_def)
next
  case nz: False
  have "(2::real) powr real_of_int \<lfloor>log 2 \<bar>r\<bar>\<rfloor> < 2 powr real_of_int (- 1075)"
    using floor_log2_bounds(1) [OF nz] assms by linarith
  then have "\<lfloor>log 2 \<bar>r\<bar>\<rfloor> < - 1075"
    by (simp only: powr_int_less_iff)
  then have e: "ulp_exponent r = - 1074"
    unfolding ulp_exponent_def by linarith
  have "\<bar>r / 2 powr real_of_int (- 1074)\<bar> = \<bar>r\<bar> / 2 powr real_of_int (- 1074)"
    by simp
  also have "\<dots> < 2 powr real_of_int (- 1075) / 2 powr real_of_int (- 1074)"
    using assms by (intro divide_strict_right_mono) simp_all
  also have "\<dots> = 2 powr (real_of_int (- 1075) - real_of_int (- 1074))"
    by (simp only: powr_diff)
  also have "\<dots> = 1 / 2"
    by (simp add: powr_minus)
  finally have "\<bar>r / 2 powr real_of_int (- 1074) - real_of_int 0\<bar> < 1 / 2" by simp
  then have "round_half_even (r / 2 powr real_of_int (- 1074)) = 0"
    by (rule round_half_even_near)
  then show ?thesis
    using nz by (simp add: round_double_def e Let_def overflow_threshold_def)
qed

lemma ulp_le_magnitude:
  fixes r :: real
  assumes "r \<noteq> 0"
  shows "2 powr real_of_int (ulp_exponent r) \<le> \<bar>r\<bar> + 1"
proof (cases "- 1074 \<le> \<lfloor>log 2 \<bar>r\<bar>\<rfloor> - 52")
  case True
  then have e: "ulp_exponent r = \<lfloor>log 2 \<bar>r\<bar>\<rfloor> - 52"
    by (simp add: ulp_exponent_def)
  have "(2::real) powr real_of_int (\<lfloor>log 2 \<bar>r\<bar>\<rfloor> - 52) \<le> 2 powr real_of_int \<lfloor>log 2 \<bar>r\<bar>\<rfloor>"
    by (simp only: powr_int_le_iff)
  then have "(2::real) powr real_of_int (ulp_exponent r) \<le> \<bar>r\<bar>"
    using floor_log2_bounds(1) [OF assms] unfolding e by linarith
  then show ?thesis by linarith
next
  case False
  then have e: "ulp_exponent r = - 1074"
    by (simp add: ulp_exponent_def)
  have "(2::real) powr real_of_int (- 1074) \<le> 2 powr real_of_int 0"
    by (simp only: powr_int_le_iff)
  then have "(2::real) powr real_of_int (ulp_exponent r) \<le> 1"
    unfolding e by simp
  then show ?thesis by linarith
qed

lemma round_double_finite:
  fixes r :: real
  assumes "\<bar>r\<bar> \<le> 2 ^ 1022"
  shows "\<exists>v. round_double r = Finite v"
proof (cases "r = 0")
  case True
  then show ?thesis by (simp add: round_double_def)
next
  case nz: False
  define e where "e = ulp_exponent r"
  define m where "m = round_half_even (r / 2 powr real_of_int e)"
  define u :: real where "u = 2 powr real_of_int e"
  define B :: real where "B = 2 ^ 1022"
  have rB: "\<bar>r\<bar> \<le> B" using assms by (simp only: B_def)
  have upos: "0 < u" by (simp add: u_def)
  have "\<bar>real_of_int m - r / u\<bar> \<le> 1 / 2"
    unfolding m_def u_def by (rule round_half_even_close)
  then have "\<bar>real_of_int m - r / u\<bar> * u \<le> 1 / 2 * u"
    using upos by (intro mult_right_mono) simp_all
  moreover have "\<bar>real_of_int m - r / u\<bar> * u = \<bar>real_of_int m * u - r\<bar>"
  proof -
    have "\<bar>real_of_int m - r / u\<bar> * u = \<bar>(real_of_int m - r / u) * u\<bar>"
      using upos by (simp add: abs_mult)
    also have "(real_of_int m - r / u) * u = real_of_int m * u - r"
      using upos by (simp add: field_simps)
    finally show ?thesis .
  qed
  ultimately have close: "\<bar>real_of_int m * u - r\<bar> \<le> u / 2" by simp
  define w where "w = real_of_int m * u"
  have "u \<le> \<bar>r\<bar> + 1"
    unfolding u_def e_def by (rule ulp_le_magnitude [OF nz])
  then have "u / 2 \<le> (\<bar>r\<bar> + 1) / 2" by simp
  moreover have "\<bar>w\<bar> \<le> \<bar>r\<bar> + u / 2"
    using close unfolding w_def [symmetric] by linarith
  ultimately have "\<bar>w\<bar> \<le> \<bar>r\<bar> + (\<bar>r\<bar> + 1) / 2"
    by linarith
  then have "\<bar>real_of_int m * u\<bar> \<le> \<bar>r\<bar> + (\<bar>r\<bar> + 1) / 2"
    by (simp only: w_def)
  also have "\<dots> \<le> B + (B + 1) / 2"
  proof -
    have "(\<bar>r\<bar> + 1) / 2 \<le> (B + 1) / 2" using rB by simp
    then show ?thesis using rB by linarith
  qed
  also have "\<dots> < overflow_threshold"
    by (simp add: overflow_threshold_def B_def)
  finally have "\<not> overflow_threshold \<le> \<bar>real_of_int m * u\<bar>" by simp
  then have "\<not> overflow_threshold \<le>
      \<bar>real_of_int (round_half_even (r / 2 powr real_of_int (ulp_exponent r)))
         * 2 powr real_of_int (ulp_exponent r)\<bar>"
    unfolding m_def u_def e_def .
  then show ?thesis
    using nz by (simp add: round_double_def Let_def)
qed

lemma round_double_zero: "round_double 0 = Finite 0"
  by (simp add: round_double_def)

lemma round_double_not_NaN: "round_double r \<noteq> NaN"
  by (simp add: round_double_def Let_def)

lemma round_double_int:
  assumes "\<bar>n\<bar> < 2 ^ 53"
  shows "round_double (real_of_int n) = Finite (real_of_int n)"
proof (cases "n = 0")
  case True
  then show ?thesis by (simp add: round_double_zero)
next
  case False
  have "\<bar>real_of_int n\<bar> < real_of_int (2 ^ 53)"
    using assms by (simp only: of_int_abs [symmetric] of_int_less_iff)
  then have "\<bar>real_of_int n * 2 powr real_of_int 0\<bar> < overflow_threshold"
    by (simp add: overflow_threshold_def)
  then show ?thesis
    using round_double_dyadic [OF False assms, of 0] by simp
qed

lemma round_double_numeral:
  "(numeral k :: int) < 2 ^ 53 \<Longrightarrow> round_double (numeral k) = Finite (numeral k)"
  using round_double_int [of "numeral k"] by simp

section \<open>NaN in the operations\<close>

lemma py_add_NaN_right [simp]: "py_add a NaN = NaN"
  by (cases a) simp_all

lemma py_mul_NaN_right [simp]: "py_mul a NaN = NaN"
  by (cases a) simp_all

lemma py_sub_NaN [simp]: "py_sub a NaN = NaN" "py_sub NaN b = NaN"
  by (simp_all add: py_sub_def)

lemma np_arctan2_f_NaN_right [simp]: "np_arctan2_f a NaN = NaN"
  by (cases a) simp_all

section \<open>Roundings at particular values\<close>

lemma round_double_one: "round_double 1 = Finite 1"
  using round_double_dyadic [of 1 0] by (simp add: overflow_threshold_def powr_minus_divide)

lemma round_double_two: "round_double 2 = Finite 2"
  using round_double_dyadic [of 1 1] by (simp add: overflow_threshold_def)





lemma round_double_2_m539: "round_double (1 / 2 ^ 539) = Finite (1 / 2 ^ 539)"
  using round_double_dyadic [of 1 "- 539"] by (simp add: overflow_threshold_def powr_minus_divide)






lemma round_double_2_1400: "round_double (2 ^ 1400) = PInf"
  using round_double_overflow [of "2 ^ 1400"] by (simp add: overflow_threshold_def powr_minus_divide)

lemma round_double_2_m1080: "round_double (1 / 2 ^ 1080) = Finite 0"
  using round_double_underflow [of "1 / 2 ^ 1080"] by (simp add: powr_minus_divide)

lemma round_double_2_m1079: "round_double (1 / 2 ^ 1079) = Finite 0"
  using round_double_underflow [of "1 / 2 ^ 1079"] by (simp add: powr_minus_divide)


section \<open>The solver at particular inputs\<close>




lemma inverse_kinematics_f_square_overflows:
  "inverse_kinematics_f (Finite (2 ^ 700)) (Finite 0) (Finite 1) (Finite 1) = Inl Float_OverflowError"
  "inverse_kinematics_f (Finite (2 ^ 700)) (Finite 0) (Finite 0) (Finite 1) = Inl Float_OverflowError"
  using round_double_2_1400
  by (simp_all add: inverse_kinematics_f_def elbow_cosine_f_def)

lemma inverse_kinematics_f_product_underflows:
  "inverse_kinematics_f (Finite 1) (Finite 1) (Finite (1 / 2 ^ 540)) (Finite (1 / 2 ^ 540))
     = Inl Float_ZeroDivisionError"
  using round_double_2_m1080 round_double_2_m539 round_double_2_m1079
  by (simp add: inverse_kinematics_f_def elbow_cosine_f_def py_sub_def round_double_one
      round_double_two)




lemma elbow_cosine_f_far_target:
  "elbow_cosine_f (Finite 4) (Finite 0) (Finite 1) (Finite 1) = Inr (Finite 7)"
  by (simp add: elbow_cosine_f_def py_sub_def round_double_zero round_double_one
      round_double_numeral)

lemma inverse_kinematics_f_far_target:
  "inverse_kinematics_f (Finite 4) (Finite 0) (Finite 1) (Finite 1) = Inr (None, None)"
  by (simp add: inverse_kinematics_f_def elbow_cosine_f_far_target)

section \<open>The outcomes of the solver in double precision\<close>

lemma py_pow2_cases:
  "py_pow2 x = Inl Float_OverflowError \<or> (\<exists>v. py_pow2 x = Inr v)"
  by (cases x) (auto split: pyfloat.splits)

lemma py_pow2_not_zero_division: "py_pow2 x \<noteq> Inl Float_ZeroDivisionError"
  by (cases x) (auto split: pyfloat.splits)

lemma py_truediv_f_cases:
  "py_truediv_f a b = Inl Float_ZeroDivisionError \<longleftrightarrow> b = Finite 0"
  "b \<noteq> Finite 0 \<Longrightarrow> \<exists>D. py_truediv_f a b = Inr D"
  "py_truediv_f a b \<noteq> Inl Float_OverflowError"
  by (cases a; cases b; simp)+

lemma py_pow2_small:
  assumes "\<not> py_gt (py_abs D) (Finite 1)"
  shows "\<exists>v. py_pow2 D = Inr v"
proof (cases D)
  case (Finite a)
  then have "\<bar>a\<bar> \<le> 1" using assms by simp
  then have "\<bar>a\<bar> * \<bar>a\<bar> \<le> 1 * 1"
    by (intro mult_mono) simp_all
  then have "\<bar>a * a\<bar> \<le> 1"
    by (simp add: abs_mult)
  then have "\<bar>a * a\<bar> \<le> 2 ^ 1022"
    by (rule order_trans) simp
  then obtain v where "round_double (a * a) = Finite v"
    using round_double_finite by blast
  then show ?thesis using Finite by simp
qed simp_all

lemma elbow_cosine_f_outcomes:
  "elbow_cosine_f x y L1 L2 =
     (if py_pow2 x = Inl Float_OverflowError \<or> py_pow2 y = Inl Float_OverflowError
         \<or> py_pow2 L1 = Inl Float_OverflowError \<or> py_pow2 L2 = Inl Float_OverflowError
      then Inl Float_OverflowError
      else py_truediv_f
             (py_sub (py_sub (py_add (projr (py_pow2 x)) (projr (py_pow2 y))) (projr (py_pow2 L1)))
                (projr (py_pow2 L2)))
             (py_mul (py_mul (Finite 2) L1) L2))"
  using py_pow2_cases [of x] py_pow2_cases [of y] py_pow2_cases [of L1] py_pow2_cases [of L2]
  by (auto simp: elbow_cosine_f_def)

lemma inverse_kinematics_f_after_division:
  assumes "elbow_cosine_f x y L1 L2 = Inr D"
  shows "py_gt (py_abs D) (Finite 1) \<Longrightarrow> inverse_kinematics_f x y L1 L2 = Inr (None, None)"
    and "\<not> py_gt (py_abs D) (Finite 1) \<Longrightarrow>
           \<exists>theta1 theta2. inverse_kinematics_f x y L1 L2 = Inr (Some theta1, Some theta2)"
proof -
  show "py_gt (py_abs D) (Finite 1) \<Longrightarrow> inverse_kinematics_f x y L1 L2 = Inr (None, None)"
    using assms by (simp add: inverse_kinematics_f_def)
  assume small: "\<not> py_gt (py_abs D) (Finite 1)"
  then obtain v where "py_pow2 D = Inr v"
    using py_pow2_small by blast
  then show "\<exists>theta1 theta2. inverse_kinematics_f x y L1 L2 = Inr (Some theta1, Some theta2)"
    using assms small by (simp add: inverse_kinematics_f_def Let_def)
qed

lemma inverse_kinematics_f_exception:
  "elbow_cosine_f x y L1 L2 = Inl e \<Longrightarrow> inverse_kinematics_f x y L1 L2 = Inl e"
  by (simp add: inverse_kinematics_f_def)




section \<open>Link lengths are not validated\<close>

lemma square_ok_double_finite:
  assumes "py_pow2 (Finite c) = Inr v"
  shows "\<exists>w. round_double (2 * c) = Finite w"
proof -
  define B :: real where "B = 2 ^ 512"
  have B: "0 \<le> B" "B * B = overflow_threshold" "2 * B \<le> 2 ^ 1022"
    by (simp_all add: B_def overflow_threshold_def)
  have "\<not> overflow_threshold \<le> \<bar>c * c\<bar>"
  proof
    assume "overflow_threshold \<le> \<bar>c * c\<bar>"
    then have "round_double (c * c) = PInf \<or> round_double (c * c) = NInf"
      by (simp only: round_double_overflow) simp
    then show False using assms by auto
  qed
  then have "\<bar>c\<bar> * \<bar>c\<bar> < B * B"
    by (simp only: B abs_mult not_le)
  then have "\<bar>c\<bar> < B"
    using B(1) by (meson abs_ge_zero mult_mono not_less)
  then have "\<bar>2 * c\<bar> \<le> 2 * B"
    by (simp add: abs_mult)
  then have "\<bar>2 * c\<bar> \<le> 2 ^ 1022"
    using B(3) by (rule order_trans)
  then show ?thesis
    by (rule round_double_finite)
qed

lemma inverse_kinematics_f_overflow:
  "some_square_overflows x y L1 L2 \<Longrightarrow> inverse_kinematics_f x y L1 L2 = Inl Float_OverflowError"
  by (simp add: inverse_kinematics_f_def elbow_cosine_f_outcomes some_square_overflows_def)

lemma inverse_kinematics_f_division:
  assumes "\<not> some_square_overflows x y L1 L2"
  shows "inverse_kinematics_f x y L1 L2 = Inl Float_ZeroDivisionError
           \<longleftrightarrow> py_mul (py_mul (Finite 2) L1) L2 = Finite 0"
    and "py_mul (py_mul (Finite 2) L1) L2 \<noteq> Finite 0
           \<Longrightarrow> \<exists>r. inverse_kinematics_f x y L1 L2 = Inr r"
proof -
  define num where
    "num = py_sub (py_sub (py_add (projr (py_pow2 x)) (projr (py_pow2 y))) (projr (py_pow2 L1)))
             (projr (py_pow2 L2))"
  define den where "den = py_mul (py_mul (Finite 2) L1) L2"
  have ec: "elbow_cosine_f x y L1 L2 = py_truediv_f num den"
    using assms
    by (simp only: elbow_cosine_f_outcomes some_square_overflows_def num_def den_def if_False)
  show "inverse_kinematics_f x y L1 L2 = Inl Float_ZeroDivisionError \<longleftrightarrow> den = Finite 0"
  proof (cases "den = Finite 0")
    case True
    then have "elbow_cosine_f x y L1 L2 = Inl Float_ZeroDivisionError"
      by (simp add: ec)
    then show ?thesis
      using True by (simp add: inverse_kinematics_f_exception)
  next
    case False
    then obtain D where D: "elbow_cosine_f x y L1 L2 = Inr D"
      using py_truediv_f_cases(2) ec by metis
    have "\<exists>r. inverse_kinematics_f x y L1 L2 = Inr r"
      using inverse_kinematics_f_after_division [OF D]
      by (cases "py_gt (py_abs D) (Finite 1)") auto
    then show ?thesis
      using False by auto
  qed
  then show "den \<noteq> Finite 0 \<Longrightarrow> \<exists>r. inverse_kinematics_f x y L1 L2 = Inr r"
    using ec py_truediv_f_cases(2) [of den num] inverse_kinematics_f_after_division
    by (metis (full_types))
qed

lemma zero_link_product:
  assumes "\<not> some_square_overflows x y (Finite c) (Finite d)" and "c = 0 \<or> d = 0"
  shows "py_mul (py_mul (Finite 2) (Finite c)) (Finite d) = Finite 0"
proof -
  obtain v where "py_pow2 (Finite c) = Inr v"
    using assms(1) py_pow2_cases [of "Finite c"] by (auto simp: some_square_overflows_def)
  then obtain w where w: "round_double (2 * c) = Finite w"
    using square_ok_double_finite by blast
  show ?thesis
    using assms(2) w by (auto simp: round_double_zero)
qed

lemma squares_do_not_overflow:
  "\<not> some_square_overflows (Finite 1) (Finite 1) (Finite 0) (Finite 2)"
  "\<not> some_square_overflows (Finite 1) (Finite 1) (Finite (1 / 2 ^ 540)) (Finite (1 / 2 ^ 540))"
  "\<not> some_square_overflows (Finite 4) (Finite 0) (Finite 1) (Finite 1)"
  using round_double_2_m1080
  by (simp_all add: some_square_overflows_def round_double_zero round_double_one
      round_double_numeral)

lemma a_square_overflows:
  "some_square_overflows (Finite (2 ^ 700)) (Finite 0) (Finite 0) (Finite 1)"
  using round_double_2_1400 by (simp add: some_square_overflows_def)

lemma divisor_values:
  "py_mul (py_mul (Finite 2) (Finite (1 / 2 ^ 540))) (Finite (1 / 2 ^ 540)) = Finite 0"
  "py_mul (py_mul (Finite 2) (Finite 1)) (Finite 1) \<noteq> Finite 0"
  using round_double_2_m539 round_double_2_m1079
  by (simp_all add: round_double_two)

theorem zero_link_raises_overflow_error:
  "inverse_kinematics_f (Finite (2 ^ 700)) (Finite 0) (Finite 0) (Finite 1)
     = Inl Float_OverflowError
   \<and> inverse_kinematics_f (Finite (2 ^ 700)) (Finite 0) (Finite 1) (Finite 1)
     = Inl Float_OverflowError
   \<and> (1 / 2 ^ 540) * (1 / 2 ^ 540) \<noteq> (0::real)
   \<and> inverse_kinematics_f (Finite 1) (Finite 1) (Finite (1 / 2 ^ 540)) (Finite (1 / 2 ^ 540))
     = Inl Float_ZeroDivisionError"
  using inverse_kinematics_f_square_overflows inverse_kinematics_f_product_underflows
  by simp

text \<open>
  C7, corrected. The solver does not validate the link lengths, and the division by
  \<^verbatim>\<open>2 * L1 * L2\<close> is not its first operation: the four squares come before it.
  If one of them overflows the call raises \<^verbatim>\<open>OverflowError\<close> and the division
  is not reached, zero link or not. Otherwise the division is reached, and it raises
  \<^verbatim>\<open>ZeroDivisionError\<close> exactly when the computed product
  \<^verbatim>\<open>2 * L1 * L2\<close> is zero; when it is not, the division yields \<open>D\<close> and the
  call returns. The computed product is zero whenever \<open>L1\<close> or \<open>L2\<close> is zero and both
  are finite; it is also zero for non-zero lengths whose product underflows.
\<close>

theorem link_lengths_are_not_validated:
  "(some_square_overflows x y L1 L2
      \<longrightarrow> inverse_kinematics_f x y L1 L2 = Inl Float_OverflowError)
   \<and> (\<not> some_square_overflows x y L1 L2
      \<longrightarrow> (inverse_kinematics_f x y L1 L2 = Inl Float_ZeroDivisionError
             \<longleftrightarrow> py_mul (py_mul (Finite 2) L1) L2 = Finite 0)
          \<and> (py_mul (py_mul (Finite 2) L1) L2 \<noteq> Finite 0
               \<longrightarrow> (\<exists>r. inverse_kinematics_f x y L1 L2 = Inr r)))
   \<and> (\<not> some_square_overflows x y L1 L2 \<and> L1 = Finite c \<and> L2 = Finite d \<and> (c = 0 \<or> d = 0)
      \<longrightarrow> inverse_kinematics_f x y L1 L2 = Inl Float_ZeroDivisionError)"
proof (intro conjI impI)
  show "inverse_kinematics_f x y L1 L2 = Inl Float_OverflowError"
    if "some_square_overflows x y L1 L2"
    using that by (rule inverse_kinematics_f_overflow)
  show "inverse_kinematics_f x y L1 L2 = Inl Float_ZeroDivisionError
          \<longleftrightarrow> py_mul (py_mul (Finite 2) L1) L2 = Finite 0"
    if "\<not> some_square_overflows x y L1 L2"
    using that by (rule inverse_kinematics_f_division(1))
  show "\<exists>r. inverse_kinematics_f x y L1 L2 = Inr r"
    if "\<not> some_square_overflows x y L1 L2" and "py_mul (py_mul (Finite 2) L1) L2 \<noteq> Finite 0"
    using that by (rule inverse_kinematics_f_division(2))
  show "inverse_kinematics_f x y L1 L2 = Inl Float_ZeroDivisionError"
    if h: "\<not> some_square_overflows x y L1 L2 \<and> L1 = Finite c \<and> L2 = Finite d \<and> (c = 0 \<or> d = 0)"
  proof -
    have "py_mul (py_mul (Finite 2) L1) L2 = Finite 0"
      using h zero_link_product [of x y c d] by blast
    then show ?thesis
      using h inverse_kinematics_f_division(1) [of x y L1 L2] by blast
  qed
qed

theorem link_lengths_are_not_validated_witness:
  "inverse_kinematics_f (Finite (2 ^ 700)) (Finite 0) (Finite 0) (Finite 1)
     = Inl Float_OverflowError
   \<and> inverse_kinematics_f (Finite 1) (Finite 1) (Finite 0) (Finite 2)
     = Inl Float_ZeroDivisionError
   \<and> inverse_kinematics_f (Finite 1) (Finite 1) (Finite (1 / 2 ^ 540)) (Finite (1 / 2 ^ 540))
     = Inl Float_ZeroDivisionError
   \<and> (\<exists>r. inverse_kinematics_f (Finite 4) (Finite 0) (Finite 1) (Finite 1) = Inr r)"
  using link_lengths_are_not_validated
          [of "Finite (2 ^ 700)" "Finite 0" "Finite 0" "Finite 1" 0 1]
    link_lengths_are_not_validated [of "Finite 1" "Finite 1" "Finite 0" "Finite 2" 0 2]
    link_lengths_are_not_validated
          [of "Finite 1" "Finite 1" "Finite (1 / 2 ^ 540)" "Finite (1 / 2 ^ 540)"
              "1 / 2 ^ 540" "1 / 2 ^ 540"]
    link_lengths_are_not_validated [of "Finite 4" "Finite 0" "Finite 1" "Finite 1" 1 1]
    a_square_overflows squares_do_not_overflow divisor_values
  by blast

section \<open>Round trip, from the sliders\<close>




section \<open>The elbow angle, from the sliders\<close>




section \<open>The success path, from the sliders\<close>




section \<open>The folded arm\<close>

text \<open>
  C5 concerns the target at the origin with links \<open>2, 2\<close>: the arm is folded back on
  itself, \<open>D = -1\<close> and the elbow angle is \<open>180\<close> degrees. The shoulder angle is
  the difference of two \<open>atan2\<close> terms, and the second is taken at
  \<open>(L2 sin theta2, L1 + L2 cos theta2)\<close>, which in exact arithmetic is the origin: the one
  point where \<open>atan2\<close> jumps. With a sine of exactly zero the shoulder angle is \<open>0\<close>;
  with any positive value in its place, however small, it is \<open>-90\<close>. In double
  precision the elbow angle is the double nearest to \<open>\<pi>\<close>, which lies below \<open>\<pi>\<close>, so
  its sine is positive (about \<open>1.2e-16\<close>) while its cosine rounds to \<open>-1\<close>: the
  running program takes the second case and returns \<open>theta1 = -90\<close>.
\<close>

lemma folded_arm_elbow:
  "elbow_cosine 0 0 2 2 = - 1"
  "np_degrees (np_arctan2 (sqrt (1 - (- 1)\<^sup>2)) (- 1)) = 180"
  by (simp_all add: elbow_cosine_def np_arctan2_def np_degrees_def)

lemma folded_arm_shoulder_unstable:
  "np_degrees (np_arctan2 0 0 - np_arctan2 (2 * 0) (2 + 2 * cos pi)) = 0"
  "0 < e \<Longrightarrow> np_degrees (np_arctan2 0 0 - np_arctan2 (2 * e) (2 + 2 * cos pi)) = - 90"
  by (simp_all add: np_arctan2_def np_degrees_def)

section \<open>A target at full stretch\<close>

text \<open>
  C1 concerns targets on or inside the reachable annulus. In exact arithmetic each gets a
  pair of angles. In double precision a target exactly at full stretch can get
  \<^verbatim>\<open>(None, None)\<close>: for the slider values \<open>x = 0\<close>, \<open>y = 0.02\<close>,
  \<open>L1 = L2 = 0.01\<close> the computed \<open>D\<close> is \<open>1 + 2 ^ - 52\<close> and the guard fires.
\<close>

lemma exact_reachable_target:
  assumes "0 < L1" and "0 < L2"
    and "\<bar>L1 - L2\<bar> \<le> sqrt (x\<^sup>2 + y\<^sup>2)" and "sqrt (x\<^sup>2 + y\<^sup>2) \<le> L1 + L2"
  shows "\<exists>theta1 theta2. inverse_kinematics x y L1 L2 = Inr (Some theta1, Some theta2)"
proof -
  have "\<bar>elbow_cosine x y L1 L2\<bar> \<le> 1"
    using assms by (simp add: elbow_cosine_reachable)
  then show ?thesis
    using assms(1,2) by (simp add: inverse_kinematics_cases Let_def)
qed

end
